theory Spec2Isabelle
  imports Main "HOL-Library.Multiset"
begin

section \<open>The data preparation cell of the RNN predictions notebook\<close>

text \<open>
  The notebook \<^verbatim>\<open>00_RNN_predictions_estimator_solution.ipynb\<close> builds its training and
  evaluation data in one cell:
  \<^verbatim>\<open>
  labeldata = np.roll(data, -1)
  traindata = np.reshape(data, [-1, SEQLEN])
  labeldata = np.reshape(labeldata, [-1, SEQLEN])
  EVAL_SEQUENCES = DATA_SEQ_LEN*4//SEQLEN//4
  joined_data = np.stack([traindata, labeldata], axis=1)
  joined_evaldata = joined_data[np.random.choice(joined_data.shape[0], EVAL_SEQUENCES, replace=False)]
  evaldata = joined_evaldata[:,0,:]
  evallabels = joined_evaldata[:,1,:]
  \<close>
  The samples are only moved around, never computed with, so the element type stays a
  type variable. A one-dimensional array is a list, a two-dimensional array a list of
  rows, a three-dimensional one a list of lists of rows. Every exception the array
  library raises is a value of \<open>error\<close>.
\<close>

subsection \<open>Errors\<close>

datatype error =
    ReshapeSizeMismatch        \<comment> \<open>ValueError: cannot reshape array of size M into shape (L)\<close>
  | StackShapeMismatch         \<comment> \<open>ValueError: all input arrays must have the same shape\<close>
  | EmptyPopulation            \<comment> \<open>ValueError: a must be greater than 0 unless no samples are taken\<close>
  | SampleLargerThanPopulation \<comment> \<open>ValueError: cannot take a larger sample than population\<close>
  | IndexOutOfBounds           \<comment> \<open>IndexError\<close>
  | SlicesDimMismatch          \<comment> \<open>ValueError of from_tensor_slices: first dimensions differ\<close>
  | BatchSizeNotPositive       \<comment> \<open>InvalidArgumentError: batch size must be greater than zero\<close>
  | NothingToConcatenate       \<comment> \<open>ValueError: need at least one array to concatenate\<close>

subsection \<open>The array operations the cell calls\<close>

text \<open>\<^verbatim>\<open>np.concatenate(arrays)\<close> on a list of one-dimensional arrays.\<close>

definition concatenate :: "'a list list \<Rightarrow> error + 'a list" where
  "concatenate arrays = (if arrays = [] then Inl NothingToConcatenate else Inr (concat arrays))"

text \<open>
  \<^verbatim>\<open>np.roll(a, shift)\<close> on a one-dimensional array: the element at position \<open>i\<close> moves to
  position \<open>(i + shift) mod n\<close>, so position \<open>j\<close> of the result holds the element that was
  at \<open>(j - shift) mod n\<close>. An empty array stays empty.
\<close>

definition roll :: "'a list \<Rightarrow> int \<Rightarrow> 'a list" where
  "roll a shift =
     (let n = length a
      in if n = 0 then []
         else map (\<lambda>j. a ! nat ((int j - shift) mod int n)) [0..<n])"

text \<open>
  \<^verbatim>\<open>np.reshape(a, [-1, cols])\<close> on a one-dimensional array, in row-major order. The
  unknown dimension is \<open>length a div cols\<close>; the call raises when the known dimensions
  multiply to zero or do not divide the size of the array.
\<close>

definition row_major :: "'a list \<Rightarrow> nat \<Rightarrow> 'a list list" where
  "row_major a cols = map (\<lambda>r. take cols (drop (r * cols) a)) [0..<length a div cols]"

definition reshape :: "'a list \<Rightarrow> nat \<Rightarrow> error + 'a list list" where
  "reshape a cols =
     (if cols = 0 \<or> length a mod cols \<noteq> 0 then Inl ReshapeSizeMismatch
      else Inr (row_major a cols))"

text \<open>
  \<^verbatim>\<open>np.stack([xs, ys], axis=1)\<close> on two-dimensional arrays of one shape: row \<open>r\<close> of the
  result is the pair of rows \<open>[xs[r], ys[r]]\<close>.
\<close>

definition stack_axis1 :: "'a list list \<Rightarrow> 'a list list \<Rightarrow> error + 'a list list list" where
  "stack_axis1 xs ys =
     (if map length xs \<noteq> map length ys then Inl StackShapeMismatch
      else Inr (map (\<lambda>(x, y). [x, y]) (zip xs ys)))"

text \<open>
  \<^verbatim>\<open>np.random.choice(pop_size, size, replace=False)\<close> with an integer population draws
  \<^verbatim>\<open>self.permutation(pop_size)[:size]\<close>. The generator is global state the notebook never
  seeds; what it draws is the parameter \<open>permutation\<close>, the shuffled \<^verbatim>\<open>arange(n)\<close> that
  the generator returns for a population of \<open>n\<close>.
\<close>

type_synonym generator = "nat \<Rightarrow> nat list"

definition choice :: "generator \<Rightarrow> nat \<Rightarrow> nat \<Rightarrow> error + nat list" where
  "choice permutation pop_size size' =
     (if pop_size = 0 \<and> size' \<noteq> 0 then Inl EmptyPopulation
      else if size' > pop_size then Inl SampleLargerThanPopulation
      else Inr (take size' (permutation pop_size)))"

text \<open>
  What the library promises of \<^verbatim>\<open>permutation(n)\<close>: a rearrangement of \<open>0, ..., n - 1\<close>.
\<close>

definition shuffled_range :: "nat list \<Rightarrow> nat \<Rightarrow> bool" where
  "shuffled_range p n \<longleftrightarrow> mset p = mset [0..<n]"

text \<open>
  One generator that keeps the promise, for the examples: the range in descending order.
\<close>

definition descending :: generator where
  "descending n = rev [0..<n]"

text \<open>Indexing with an array of row numbers, \<^verbatim>\<open>a[idx]\<close>: one row per index.\<close>

definition take_rows :: "'a list \<Rightarrow> nat list \<Rightarrow> error + 'a list" where
  "take_rows a idx =
     (if list_all (\<lambda>i. i < length a) idx then Inr (map (\<lambda>i. a ! i) idx)
      else Inl IndexOutOfBounds)"

text \<open>The slice \<^verbatim>\<open>a[:,c,:]\<close> of a three-dimensional array.\<close>

definition slice_axis1 :: "'a list list \<Rightarrow> nat \<Rightarrow> error + 'a list" where
  "slice_axis1 a c =
     (if list_all (\<lambda>row. c < length row) a then Inr (map (\<lambda>row. row ! c) a)
      else Inl IndexOutOfBounds)"

subsection \<open>The cell\<close>

text \<open>Lines 1 to 3 of the cell: the label sequence and the two arrays of windows.\<close>

definition slice_sequences :: "'a list \<Rightarrow> nat \<Rightarrow> error + ('a list list \<times> 'a list list)" where
  "slice_sequences data seqlen =
     (let labeldata = roll data (- 1)
      in case reshape data seqlen of
           Inl e \<Rightarrow> Inl e
         | Inr traindata \<Rightarrow>
            (case reshape labeldata seqlen of
               Inl e \<Rightarrow> Inl e
             | Inr labeldata \<Rightarrow> Inr (traindata, labeldata)))"

text \<open>The rest of the cell: the evaluation windows, drawn from the joined array.\<close>

definition subsample ::
  "'a list list \<Rightarrow> 'a list list \<Rightarrow> nat \<Rightarrow> generator \<Rightarrow> error + ('a list list \<times> 'a list list)" where
  "subsample traindata labeldata eval_sequences permutation =
     (case stack_axis1 traindata labeldata of
        Inl e \<Rightarrow> Inl e
      | Inr joined_data \<Rightarrow>
         (case choice permutation (length joined_data) eval_sequences of
            Inl e \<Rightarrow> Inl e
          | Inr idx \<Rightarrow>
             (case take_rows joined_data idx of
                Inl e \<Rightarrow> Inl e
              | Inr joined_evaldata \<Rightarrow>
                 (case slice_axis1 joined_evaldata 0 of
                    Inl e \<Rightarrow> Inl e
                  | Inr evaldata \<Rightarrow>
                     (case slice_axis1 joined_evaldata 1 of
                        Inl e \<Rightarrow> Inl e
                      | Inr evallabels \<Rightarrow> Inr (evaldata, evallabels))))))"

record 'a globals =
  traindata :: "'a list list"
  labeldata :: "'a list list"
  evaldata :: "'a list list"
  evallabels :: "'a list list"

definition prepare_dataset :: "'a list \<Rightarrow> nat \<Rightarrow> nat \<Rightarrow> generator \<Rightarrow> error + 'a globals" where
  "prepare_dataset data seqlen eval_sequences permutation =
     (case slice_sequences data seqlen of
        Inl e \<Rightarrow> Inl e
      | Inr (tr, lb) \<Rightarrow>
         (case subsample tr lb eval_sequences permutation of
            Inl e \<Rightarrow> Inl e
          | Inr (ev, el) \<Rightarrow>
              Inr \<lparr>traindata = tr, labeldata = lb, evaldata = ev, evallabels = el\<rparr>))"

subsection \<open>The generated corpus\<close>

text \<open>
  \<^verbatim>\<open>
  DATA_SEQ_LEN = 1024*128
  data = np.concatenate([utils_datagen.create_time_series(waveform, DATA_SEQ_LEN)
                         for waveform in utils_datagen.Waveforms])
  \<close>
  The module \<^verbatim>\<open>utils_datagen\<close> is not among the sources, so the generating function and
  the enumeration of waveforms are parameters of the model.
\<close>

definition generate_data :: "('k \<Rightarrow> nat \<Rightarrow> 'a list) \<Rightarrow> 'k list \<Rightarrow> nat \<Rightarrow> error + 'a list" where
  "generate_data create_time_series Waveforms data_seq_len =
     concatenate (map (\<lambda>waveform. create_time_series waveform data_seq_len) Waveforms)"

text \<open>
  Modelled from the spec: \<^verbatim>\<open>utils_datagen.create_time_series\<close> is missing from the
  sources. Section 4.1 of the specification gives its contract: given a waveform kind and
  a target length \<open>N\<close>, it produces a sequence of \<open>N\<close> values. The predicate says that a
  generating function keeps this contract on the kinds in use.
\<close>

definition produces_length :: "('k \<Rightarrow> nat \<Rightarrow> 'a list) \<Rightarrow> 'k list \<Rightarrow> nat \<Rightarrow> bool" where
  "produces_length create_time_series kinds N \<longleftrightarrow>
     list_all (\<lambda>kind. length (create_time_series kind N) = N) kinds"

subsection \<open>The input functions\<close>

text \<open>
  A finite \<^verbatim>\<open>tf.data.Dataset\<close> is the list of its elements in iteration order.
  \<^verbatim>\<open>from_tensor_slices((xs, ys))\<close> slices both arrays along the first dimension.
\<close>

definition from_tensor_slices :: "'a list \<Rightarrow> 'b list \<Rightarrow> error + ('a \<times> 'b) list" where
  "from_tensor_slices xs ys =
     (if length xs \<noteq> length ys then Inl SlicesDimMismatch else Inr (zip xs ys))"

text \<open>\<^verbatim>\<open>dataset.repeat(count)\<close> with a count.\<close>

definition repeat_count :: "'e list \<Rightarrow> nat \<Rightarrow> 'e list" where
  "repeat_count dataset count' = concat (replicate count' dataset)"

text \<open>
  \<^verbatim>\<open>dataset.batch(batch_size)\<close>: consecutive elements are stacked, \<open>batch_size\<close> at a
  time; a shorter final batch is kept. A batch of (sample, label) pairs is the pair of
  the stacked samples and the stacked labels.
\<close>

function groups :: "nat \<Rightarrow> 'e list \<Rightarrow> 'e list list" where
  "groups n xs = (if n = 0 \<or> xs = [] then [] else take n xs # groups n (drop n xs))"
  by pat_completeness auto
termination
  by (relation "measure (\<lambda>(n, xs). length xs)") auto

definition batch :: "('a \<times> 'b) list \<Rightarrow> nat \<Rightarrow> error + ('a list \<times> 'b list) list" where
  "batch dataset batch_size =
     (if batch_size = 0 then Inl BatchSizeNotPositive
      else Inr (map (\<lambda>g. (map fst g, map snd g)) (groups batch_size dataset)))"

text \<open>
  A one-shot iterator is the list of the batches still to come; \<^verbatim>\<open>get_next()\<close> returns
  the next one, and \<open>None\<close> stands for the end of the sequence (OutOfRangeError).
\<close>

definition get_next :: "'b list \<Rightarrow> ('b \<times> 'b list) option" where
  "get_next it = (case it of [] \<Rightarrow> None | b # rest \<Rightarrow> Some (b, rest))"

text \<open>
  \<^verbatim>\<open>
  def eval_dataset():
      evaldataset = tf.data.Dataset.from_tensor_slices((evaldata, evallabels))
      evaldataset = evaldataset.repeat(1)
      evaldataset = evaldataset.batch(EVAL_SEQUENCES) # just one batch with everything
      samples, labels = evaldataset.make_one_shot_iterator().get_next()
  \<close>
\<close>

definition eval_dataset :: "'a globals \<Rightarrow> nat \<Rightarrow> error + ('a list list \<times> 'a list list) list" where
  "eval_dataset g eval_sequences =
     (case from_tensor_slices (evaldata g) (evallabels g) of
        Inl e \<Rightarrow> Inl e
      | Inr evaldataset \<Rightarrow> batch (repeat_count evaldataset 1) eval_sequences)"

text \<open>
  \<^verbatim>\<open>train_dataset\<close> starts from \<^verbatim>\<open>from_tensor_slices((traindata, labeldata))\<close> and then
  repeats, shuffles and batches these elements for ever. The elements it starts from are
  the training pool.
\<close>

definition train_pool :: "'a globals \<Rightarrow> error + ('a list \<times> 'a list) list" where
  "train_pool g = from_tensor_slices (traindata g) (labeldata g)"

subsection \<open>The constants of the notebook\<close>

definition DATA_SEQ_LEN :: nat where
  "DATA_SEQ_LEN = 1024 * 128"

definition SEQLEN :: nat where
  "SEQLEN = 16"

definition EVAL_SEQUENCES :: nat where
  "EVAL_SEQUENCES = DATA_SEQ_LEN * 4 div SEQLEN div 4"

definition notebook_cell :: "'a list \<Rightarrow> generator \<Rightarrow> error + 'a globals" where
  "notebook_cell data permutation = prepare_dataset data SEQLEN EVAL_SEQUENCES permutation"

section \<open>Windows\<close>

lemma concat_rows_take:
  "concat (map (\<lambda>r. take cols (drop (r * cols) a)) [0..<k]) = take (k * cols) a"
proof (induction k)
  case 0
  show ?case by simp
next
  case (Suc k)
  have "take (k * cols) a @ take cols (drop (k * cols) a) = take (k * cols + cols) a"
    by (simp add: take_add)
  with Suc show ?case by (simp add: add.commute)
qed

lemma concat_row_major:
  assumes "length a mod cols = 0"
  shows "concat (row_major a cols) = a"
proof -
  have "length a div cols * cols = length a"
    using assms by (simp add: mod_0_imp_dvd)
  then show ?thesis
    by (simp add: row_major_def concat_rows_take)
qed

lemma length_row_major: "length (row_major a cols) = length a div cols"
  by (simp add: row_major_def)

lemma length_roll: "length (roll a shift) = length a"
  by (simp add: roll_def Let_def)

lemma slice_sequences_Inr:
  assumes "0 < L" and "length data mod L = 0"
  shows "slice_sequences data L = Inr (row_major data L, row_major (roll data (- 1)) L)"
  using assms by (simp add: slice_sequences_def Let_def reshape_def length_roll)

text \<open>
  Claim C2. For a source sequence whose length is a multiple of the window length, the
  input windows that the cell cuts, concatenated in order, are the source sequence
  again; there are \<open>M div L\<close> of them.
\<close>

theorem reshape_roundtrip:
  assumes "0 < L" and "length data mod L = 0"
  shows "\<exists>tr lb. slice_sequences data L = Inr (tr, lb)
           \<and> length tr = length data div L \<and> concat tr = data"
  using assms by (simp add: slice_sequences_Inr length_row_major concat_row_major)

theorem reshape_roundtrip_witness:
  "\<exists>tr lb. slice_sequences [0, 1, 2, 3, 4, 5, 6, 7 :: int] 4 = Inr (tr, lb)
     \<and> length tr = 2 \<and> concat tr = [0, 1, 2, 3, 4, 5, 6, 7]"
  using reshape_roundtrip [of 4 "[0, 1, 2, 3, 4, 5, 6, 7 :: int]"] by simp

lemma roll_minus1_nth:
  assumes "j < length a"
  shows "roll a (- 1) ! j = a ! (Suc j mod length a)"
proof -
  have "nat ((int j + 1) mod int (length a)) = Suc j mod length a"
    by (metis nat_int of_nat_Suc of_nat_mod add.commute)
  with assms show ?thesis
    by (auto simp: roll_def Let_def)
qed

lemma roll_minus1_rotate1: "roll a (- 1) = rotate1 a"
  by (rule nth_equalityI) (simp_all add: length_roll roll_minus1_nth nth_rotate1)

lemma set_roll_minus1: "set (roll a (- 1)) = set a"
  by (simp add: roll_minus1_rotate1)

lemma row_major_bound:
  assumes "w < length a div L"
  shows "w * L + L \<le> length a"
proof -
  have "Suc w * L \<le> length a div L * L"
    using assms by (intro mult_le_mono1) simp
  also have "\<dots> \<le> length a" by simp
  finally show ?thesis by simp
qed

lemma row_major_nth:
  assumes "w < length a div L" and "i < L"
  shows "row_major a L ! w ! i = a ! (w * L + i)"
  using assms row_major_bound [OF assms(1)] by (simp add: row_major_def)

lemma length_row_major_row:
  assumes "w < length a div L"
  shows "length (row_major a L ! w) = L"
  using assms row_major_bound [OF assms] by (simp add: row_major_def)

lemma label_row_nth:
  assumes "w < length a div L" and "i < L"
  shows "row_major (roll a (- 1)) L ! w ! i = a ! (Suc (w * L + i) mod length a)"
proof -
  have "w * L + i < length a"
    using row_major_bound [OF assms(1)] assms(2) by simp
  then show ?thesis
    using assms by (simp add: row_major_nth length_roll roll_minus1_nth)
qed

lemma labels_inside_window:
  assumes "w < length a div L" and "Suc i < L"
  shows "row_major (roll a (- 1)) L ! w ! i = row_major a L ! w ! Suc i"
proof -
  have "Suc (w * L + i) < length a"
    using row_major_bound [OF assms(1)] assms(2) by simp
  then show ?thesis
    using assms by (simp add: label_row_nth row_major_nth)
qed

lemma labels_window_end:
  assumes "w < length a div L" and "0 < L" and "length a mod L = 0"
  shows "row_major (roll a (- 1)) L ! w ! (L - 1) =
           (if Suc w < length a div L then row_major a L ! Suc w ! 0 else a ! 0)"
proof -
  have eq: "Suc (w * L + (L - 1)) = Suc w * L"
    using assms(2) by simp
  have "row_major (roll a (- 1)) L ! w ! (L - 1) = a ! (Suc (w * L + (L - 1)) mod length a)"
    using assms(1,2) by (intro label_row_nth) simp_all
  then have lab: "row_major (roll a (- 1)) L ! w ! (L - 1) = a ! (Suc w * L mod length a)"
    by (simp only: eq)
  show ?thesis
  proof (cases "Suc w < length a div L")
    case True
    have "Suc w * L + L \<le> length a"
      by (rule row_major_bound [OF True])
    then have "Suc w * L < length a"
      using assms(2) by simp
    then show ?thesis
      using True assms(2) lab row_major_nth [OF True assms(2)] by simp
  next
    case False
    then have "Suc w = length a div L"
      using assms(1) by simp
    moreover have "length a div L * L = length a"
      using assms(3) by (simp add: mod_0_imp_dvd)
    ultimately have "Suc w * L = length a"
      by simp
    then show ?thesis
      using False lab by simp
  qed
qed

lemma slice_example:
  "slice_sequences [0, 1, 2, 3, 4, 5, 6, 7 :: int] 4
     = Inr ([[0, 1, 2, 3], [4, 5, 6, 7]], [[1, 2, 3, 4], [5, 6, 7, 0]])"
  by code_simp

text \<open>
  Claim C1. For a source sequence whose length \<open>M\<close> is a multiple of the window length
  \<open>L\<close>, the cell cuts \<open>M div L\<close> input windows and as many label windows, all of length
  \<open>L\<close>. Inside a window the label at \<open>i\<close> is the input at \<open>i + 1\<close>; the last label of
  a window is the first input of the next window, and the last label of the final window
  is the first sample of the source sequence. For the sequence \<open>0, ..., 7\<close> and \<open>L = 4\<close>
  the input windows are \<open>[[0,1,2,3],[4,5,6,7]]\<close> and the label windows
  \<open>[[1,2,3,4],[5,6,7,0]]\<close>.
\<close>

theorem labels_shifted_by_one:
  assumes "0 < L" and "length data mod L = 0"
  shows "(\<exists>tr lb. slice_sequences data L = Inr (tr, lb)
            \<and> length tr = length data div L \<and> length lb = length data div L
            \<and> (\<forall>w < length data div L.
                  length (tr ! w) = L \<and> length (lb ! w) = L
                  \<and> (\<forall>i. i + 1 < L \<longrightarrow> lb ! w ! i = tr ! w ! (i + 1))
                  \<and> (w + 1 < length data div L \<longrightarrow> lb ! w ! (L - 1) = tr ! (w + 1) ! 0)
                  \<and> (w + 1 = length data div L \<longrightarrow> lb ! w ! (L - 1) = data ! 0)))
         \<and> slice_sequences [0, 1, 2, 3, 4, 5, 6, 7 :: int] 4
             = Inr ([[0, 1, 2, 3], [4, 5, 6, 7]], [[1, 2, 3, 4], [5, 6, 7, 0]])"
proof -
  let ?tr = "row_major data L" and ?lb = "row_major (roll data (- 1)) L"
  have rows: "length (?tr ! w) = L \<and> length (?lb ! w) = L
      \<and> (\<forall>i. i + 1 < L \<longrightarrow> ?lb ! w ! i = ?tr ! w ! (i + 1))
      \<and> (w + 1 < length data div L \<longrightarrow> ?lb ! w ! (L - 1) = ?tr ! (w + 1) ! 0)
      \<and> (w + 1 = length data div L \<longrightarrow> ?lb ! w ! (L - 1) = data ! 0)"
    if w: "w < length data div L" for w
  proof -
    have w': "w < length (roll data (- 1)) div L"
      using w by (simp add: length_roll)
    have "length (?tr ! w) = L"
      by (rule length_row_major_row [OF w])
    moreover have "length (?lb ! w) = L"
      by (rule length_row_major_row [OF w'])
    moreover have "\<forall>i. i + 1 < L \<longrightarrow> ?lb ! w ! i = ?tr ! w ! (i + 1)"
      using labels_inside_window [OF w] by simp
    moreover have "?lb ! w ! (L - 1) =
        (if Suc w < length data div L then ?tr ! Suc w ! 0 else data ! 0)"
      by (rule labels_window_end [OF w assms])
    ultimately show ?thesis by simp
  qed
  have "slice_sequences data L = Inr (?tr, ?lb)"
    by (rule slice_sequences_Inr [OF assms])
  moreover have "length ?tr = length data div L" "length ?lb = length data div L"
    by (simp_all add: length_row_major length_roll)
  ultimately show ?thesis
    using rows slice_example by blast
qed

theorem labels_shifted_by_one_witness:
  "\<exists>tr lb. slice_sequences [10, 20, 30, 40, 50, 60 :: nat] 3 = Inr (tr, lb)
      \<and> length tr = 2 \<and> length lb = 2
      \<and> (\<forall>w < 2. length (tr ! w) = 3 \<and> length (lb ! w) = 3
            \<and> (\<forall>i. i + 1 < 3 \<longrightarrow> lb ! w ! i = tr ! w ! (i + 1))
            \<and> (w + 1 < 2 \<longrightarrow> lb ! w ! 2 = tr ! (w + 1) ! 0)
            \<and> (w + 1 = 2 \<longrightarrow> lb ! w ! 2 = 10))"
  using labels_shifted_by_one [of 3 "[10, 20, 30, 40, 50, 60 :: nat]"] by simp

section \<open>The evaluation subset\<close>

lemma map_length_row_major: "map length (row_major a L) = replicate (length a div L) L"
proof (rule nth_equalityI)
  show "length (map length (row_major a L)) = length (replicate (length a div L) L)"
    by (simp add: length_row_major)
next
  fix w assume "w < length (map length (row_major a L))"
  then have "w < length a div L" by (simp add: length_row_major)
  then show "map length (row_major a L) ! w = replicate (length a div L) L ! w"
    by (simp add: length_row_major length_row_major_row)
qed

lemma stack_axis1_Inr:
  assumes "map length xs = map length ys"
  shows "stack_axis1 xs ys = Inr (map (\<lambda>(x, y). [x, y]) (zip xs ys))"
  using assms by (simp add: stack_axis1_def)

lemma slices_of_joined_rows:
  assumes "length xs = length ys" and "\<forall>i\<in>set idx. i < length xs"
  shows "slice_axis1 (map (\<lambda>i. map (\<lambda>(x, y). [x, y]) (zip xs ys) ! i) idx) 0
           = Inr (map (\<lambda>i. xs ! i) idx)"
    and "slice_axis1 (map (\<lambda>i. map (\<lambda>(x, y). [x, y]) (zip xs ys) ! i) idx) 1
           = Inr (map (\<lambda>i. ys ! i) idx)"
  using assms by (simp_all add: slice_axis1_def list_all_iff)

lemma subsample_eq:
  assumes "map length xs = map length ys"
  shows "subsample xs ys K permutation =
     (if length xs = 0 \<and> K \<noteq> 0 then Inl EmptyPopulation
      else if K > length xs then Inl SampleLargerThanPopulation
      else if \<not> list_all (\<lambda>i. i < length xs) (take K (permutation (length xs)))
        then Inl IndexOutOfBounds
      else Inr (map (\<lambda>i. xs ! i) (take K (permutation (length xs))),
                map (\<lambda>i. ys ! i) (take K (permutation (length xs)))))"
proof -
  have len: "length xs = length ys"
    using assms by (metis length_map)
  show ?thesis
    using len slices_of_joined_rows [OF len]
    by (simp add: subsample_def stack_axis1_Inr [OF assms] choice_def take_rows_def list_all_iff)
qed

lemma prepare_dataset_eq:
  "prepare_dataset data L K permutation =
     (let n = length data div L; idx = take K (permutation n);
          tr = row_major data L; lb = row_major (roll data (- 1)) L
      in if L = 0 \<or> length data mod L \<noteq> 0 then Inl ReshapeSizeMismatch
         else if n = 0 \<and> K \<noteq> 0 then Inl EmptyPopulation
         else if K > n then Inl SampleLargerThanPopulation
         else if \<not> list_all (\<lambda>i. i < n) idx then Inl IndexOutOfBounds
         else Inr \<lparr>traindata = tr, labeldata = lb,
                   evaldata = map (\<lambda>i. tr ! i) idx, evallabels = map (\<lambda>i. lb ! i) idx\<rparr>)"
proof (cases "L = 0 \<or> length data mod L \<noteq> 0")
  case True
  then show ?thesis
    by (auto simp: prepare_dataset_def slice_sequences_def reshape_def Let_def)
next
  case False
  then have L: "0 < L" "length data mod L = 0" by simp_all
  have shapes: "map length (row_major data L) = map length (row_major (roll data (- 1)) L)"
    by (simp add: map_length_row_major length_roll)
  show ?thesis
    using False
    by (simp add: prepare_dataset_def slice_sequences_Inr [OF L] subsample_eq [OF shapes]
        length_row_major Let_def)
qed

lemma shuffled_range_iff: "shuffled_range p n \<longleftrightarrow> distinct p \<and> set p = {..<n}"
proof
  assume "shuffled_range p n"
  then have m: "mset p = mset [0..<n]" by (simp add: shuffled_range_def)
  have "distinct p \<longleftrightarrow> distinct [0..<n]"
    using m by (rule mset_eq_imp_distinct_iff)
  moreover have "set p = set [0..<n]"
    using m by (rule mset_eq_setD)
  ultimately show "distinct p \<and> set p = {..<n}"
    by (simp add: lessThan_atLeast0)
next
  assume a: "distinct p \<and> set p = {..<n}"
  then have "set p = set [0..<n]"
    by (simp add: lessThan_atLeast0)
  then have "mset p = mset [0..<n]"
    using a set_eq_iff_mset_eq_distinct [of p "[0..<n]"] by simp
  then show "shuffled_range p n" by (simp add: shuffled_range_def)
qed

lemma shuffled_range_take:
  assumes "shuffled_range p n"
  shows "distinct (take K p)" and "set (take K p) \<subseteq> {..<n}" and "length p = n"
proof -
  have p: "distinct p" "set p = {..<n}"
    using assms by (simp_all add: shuffled_range_iff)
  show "distinct (take K p)"
    using p(1) by simp
  show "set (take K p) \<subseteq> {..<n}"
    using set_take_subset [of K p] p(2) by simp
  show "length p = n"
    using distinct_card [OF p(1)] p(2) by simp
qed

lemma shuffled_range_descending: "shuffled_range (descending n) n"
  by (simp add: shuffled_range_def descending_def)

lemma prepare_dataset_InrD:
  assumes "prepare_dataset data L K permutation = Inr g"
  shows "0 < L" and "length data mod L = 0" and "K \<le> length data div L"
    and "\<forall>i\<in>set (take K (permutation (length data div L))). i < length data div L"
    and "traindata g = row_major data L"
    and "labeldata g = row_major (roll data (- 1)) L"
    and "evaldata g = map (\<lambda>i. row_major data L ! i) (take K (permutation (length data div L)))"
    and "evallabels g =
           map (\<lambda>i. row_major (roll data (- 1)) L ! i) (take K (permutation (length data div L)))"
  using assms
  by (auto simp: prepare_dataset_eq Let_def list_all_iff split: if_splits)

lemma prepare_dataset_Inr:
  assumes "0 < L" and "length data mod L = 0" and "K \<le> length data div L"
    and "shuffled_range (permutation (length data div L)) (length data div L)"
  shows "\<exists>g. prepare_dataset data L K permutation = Inr g"
proof -
  have "\<forall>i\<in>set (take K (permutation (length data div L))). i < length data div L"
    using shuffled_range_take(2) [OF assms(4), of K] by auto
  then show ?thesis
    using assms(1-3) by (auto simp: prepare_dataset_eq Let_def list_all_iff)
qed








lemma set_row_major_row:
  assumes "w < length a div L"
  shows "set (row_major a L ! w) \<subseteq> set a"
proof -
  have "set (take L (drop (w * L) a)) \<subseteq> set a"
    by (meson set_take_subset set_drop_subset subset_trans)
  then show ?thesis
    using assms by (simp add: row_major_def)
qed

lemma set_row_major:
  assumes "row \<in> set (row_major a L)"
  shows "set row \<subseteq> set a"
proof -
  obtain w where "w < length a div L" and "row = row_major a L ! w"
    using assms by (metis in_set_conv_nth length_row_major)
  then show ?thesis
    using set_row_major_row by metis
qed

text \<open>
  Claim C5. Every sample of every array the cell leaves behind (training inputs,
  training labels, evaluation inputs, evaluation labels) is a sample of the source
  sequence.
\<close>

theorem no_value_fabricated:
  assumes "prepare_dataset data L K permutation = Inr g"
  shows "\<forall>row \<in> set (traindata g) \<union> set (labeldata g) \<union> set (evaldata g) \<union> set (evallabels g).
           set row \<subseteq> set data"
proof -
  note D = prepare_dataset_InrD [OF assms]
  have tr: "set row \<subseteq> set data" if "row \<in> set (row_major data L)" for row
    using that by (rule set_row_major)
  have lb: "set row \<subseteq> set data" if "row \<in> set (row_major (roll data (- 1)) L)" for row
    using set_row_major [OF that] by (simp add: set_roll_minus1)
  have idx: "row_major data L ! i \<in> set (row_major data L)"
       "row_major (roll data (- 1)) L ! i \<in> set (row_major (roll data (- 1)) L)"
    if "i \<in> set (take K (permutation (length data div L)))" for i
    using that D(4) by (simp_all add: length_row_major length_roll)
  have "set row \<subseteq> set data" if "row \<in> set (evaldata g)" for row
    using that idx(1) tr unfolding D(7) by auto
  moreover have "set row \<subseteq> set data" if "row \<in> set (evallabels g)" for row
    using that idx(2) lb unfolding D(8) by auto
  ultimately show ?thesis
    using tr lb unfolding D(5,6) by blast
qed

lemma prepare_example:
  "prepare_dataset [0, 1, 2, 3, 4, 5, 6, 7 :: int] 4 1 (\<lambda>n. [1, 0])
     = Inr \<lparr>traindata = [[0, 1, 2, 3], [4, 5, 6, 7]], labeldata = [[1, 2, 3, 4], [5, 6, 7, 0]],
            evaldata = [[4, 5, 6, 7]], evallabels = [[5, 6, 7, 0]]\<rparr>"
  by code_simp

theorem no_value_fabricated_witness:
  "set [0, 1, 2, 3] \<subseteq> {0, 1, 2, 3, 4, 5, 6, 7 :: int}
   \<and> set [4, 5, 6, 7] \<subseteq> {0, 1, 2, 3, 4, 5, 6, 7 :: int}
   \<and> set [1, 2, 3, 4] \<subseteq> {0, 1, 2, 3, 4, 5, 6, 7 :: int}
   \<and> set [5, 6, 7, 0] \<subseteq> {0, 1, 2, 3, 4, 5, 6, 7 :: int}"
  using no_value_fabricated [OF prepare_example] by simp

text \<open>
  Claim C4. Drawing the evaluation windows leaves the training arrays as the slicing made
  them: the training pool is the list of all \<open>M div L\<close> pairs of an input window and its
  label window, in order, and every evaluation pair is one of them.
\<close>

theorem training_pool_unchanged:
  assumes "prepare_dataset data L K permutation = Inr g"
  shows "slice_sequences data L = Inr (traindata g, labeldata g)
       \<and> train_pool g = Inr (zip (row_major data L) (row_major (roll data (- 1)) L))
       \<and> length (zip (row_major data L) (row_major (roll data (- 1)) L)) = length data div L
       \<and> (\<forall>pair \<in> set (zip (evaldata g) (evallabels g)).
             pair \<in> set (zip (row_major data L) (row_major (roll data (- 1)) L)))"
proof -
  note D = prepare_dataset_InrD [OF assms]
  let ?tr = "row_major data L" and ?lb = "row_major (roll data (- 1)) L"
  let ?idx = "take K (permutation (length data div L))"
  have len: "length ?tr = length data div L" "length ?lb = length data div L"
    by (simp_all add: length_row_major length_roll)
  have "zip (evaldata g) (evallabels g) = map (\<lambda>i. (?tr ! i, ?lb ! i)) ?idx"
    unfolding D(7,8) by (simp add: zip_map_map zip_same_conv_map)
  moreover have "(?tr ! i, ?lb ! i) \<in> set (zip ?tr ?lb)" if "i \<in> set ?idx" for i
  proof -
    have "i < length (zip ?tr ?lb)" using D(4) that len by simp
    then have "zip ?tr ?lb ! i \<in> set (zip ?tr ?lb)" by (rule nth_mem)
    then show ?thesis using D(4) that len by simp
  qed
  ultimately have "\<forall>pair \<in> set (zip (evaldata g) (evallabels g)). pair \<in> set (zip ?tr ?lb)"
    by auto
  moreover have "slice_sequences data L = Inr (traindata g, labeldata g)"
    using slice_sequences_Inr [OF D(1,2)] D(5,6) by simp
  moreover have "train_pool g = Inr (zip ?tr ?lb)"
    using len D(5,6) by (simp add: train_pool_def from_tensor_slices_def)
  ultimately show ?thesis
    using len by simp
qed

lemma choice_fibre:
  assumes "length idx = K" and "distinct idx" and "set idx \<subseteq> {..<n}"
  shows "card {p. shuffled_range p n \<and> take K p = idx} = fact (n - K)"
proof -
  define A where "A = {..<n} - set idx"
  define T where "T = {q. length q = n - K \<and> distinct q \<and> set q \<subseteq> A}"
  have finA: "finite A" by (simp add: A_def)
  have cardA: "card A = n - K"
    using assms by (simp add: A_def card_Diff_subset distinct_card)
  have "{p. shuffled_range p n \<and> take K p = idx} = (\<lambda>q. idx @ q) ` T"
  proof (intro set_eqI iffI)
    fix p assume "p \<in> {p. shuffled_range p n \<and> take K p = idx}"
    then have p: "distinct p" "set p = {..<n}" "take K p = idx"
      by (simp_all add: shuffled_range_iff)
    have lenp: "length p = n"
      using distinct_card [OF p(1)] p(2) by simp
    have split: "p = idx @ drop K p"
      using append_take_drop_id [of K p] p(3) by simp
    have "distinct (idx @ drop K p)" "set (idx @ drop K p) = {..<n}"
      using p(1,2) split by simp_all
    then have "distinct (drop K p)" "set (drop K p) \<subseteq> {..<n} - set idx"
      by auto
    then have "drop K p \<in> T"
      using lenp by (simp add: T_def A_def)
    then show "p \<in> (\<lambda>q. idx @ q) ` T"
      using split by blast
  next
    fix p assume "p \<in> (\<lambda>q. idx @ q) ` T"
    then obtain q where q: "p = idx @ q" "length q = n - K" "distinct q" "set q \<subseteq> A"
      by (auto simp: T_def)
    have "card (set q) = card A"
      using q(2,3) cardA by (simp add: distinct_card)
    then have "set q = A"
      using q(4) finA by (simp add: card_subset_eq)
    then have "distinct p" "set p = {..<n}"
      using q(1,3) assms(2,3) by (auto simp: A_def)
    moreover have "take K p = idx"
      using q(1) assms(1) by simp
    ultimately show "p \<in> {p. shuffled_range p n \<and> take K p = idx}"
      by (simp add: shuffled_range_iff)
  qed
  moreover have "inj_on (\<lambda>q. idx @ q) T"
    by (simp add: inj_on_def)
  ultimately have "card {p. shuffled_range p n \<and> take K p = idx} = card T"
    by (simp add: card_image)
  also have "card T = \<Prod>{card A - (n - K) + 1..card A}"
    unfolding T_def using finA cardA by (intro card_lists_distinct_length_eq) simp_all
  also have "\<dots> = fact (n - K)"
    by (simp add: cardA fact_prod)
  finally show ?thesis .
qed

lemma row_major_example:
  "row_major [0, 1, 2, 3, 4, 5, 6, 7 :: int] 4 = [[0, 1, 2, 3], [4, 5, 6, 7]]"
  "row_major (roll [0, 1, 2, 3, 4, 5, 6, 7 :: int] (- 1)) 4 = [[1, 2, 3, 4], [5, 6, 7, 0]]"
  by code_simp+

theorem training_pool_unchanged_witness:
  "slice_sequences [0, 1, 2, 3, 4, 5, 6, 7 :: int] 4
     = Inr ([[0, 1, 2, 3], [4, 5, 6, 7]], [[1, 2, 3, 4], [5, 6, 7, 0]])
   \<and> train_pool \<lparr>traindata = [[0, 1, 2, 3], [4, 5, 6, 7 :: int]],
                  labeldata = [[1, 2, 3, 4], [5, 6, 7, 0]],
                  evaldata = [[4, 5, 6, 7]], evallabels = [[5, 6, 7, 0]]\<rparr>
       = Inr [([0, 1, 2, 3], [1, 2, 3, 4]), ([4, 5, 6, 7], [5, 6, 7, 0])]
   \<and> ([4, 5, 6, 7], [5, 6, 7, 0 :: int])
       \<in> set [([0, 1, 2, 3], [1, 2, 3, 4]), ([4, 5, 6, 7], [5, 6, 7, 0])]"
  using training_pool_unchanged [OF prepare_example] unfolding row_major_example by simp

lemma choice_Inr:
  assumes "K \<le> n"
  shows "choice permutation n K = Inr (take K (permutation n))"
  using assms by (auto simp: choice_def)

lemma choice_draws:
  assumes "K \<le> n" and "length idx = K" and "distinct idx" and "set idx \<subseteq> {..<n}"
  shows "card {p. shuffled_range p n \<and> choice (\<lambda>m. p) n K = Inr idx} = fact (n - K)"
proof -
  have "{p. shuffled_range p n \<and> choice (\<lambda>m. p) n K = Inr idx}
          = {p. shuffled_range p n \<and> take K p = idx}"
    using assms(1) by (simp add: choice_Inr)
  then show ?thesis
    using choice_fibre [OF assms(2-4)] by simp
qed

text \<open>
  Claim C3. When the evaluation count \<open>K\<close> does not exceed the number \<open>n\<close> of windows,
  the cell draws the first \<open>K\<close> entries of the generator's shuffled range of the window
  indices: \<open>K\<close> indices, no index twice, each the index of a window, and the evaluation
  arrays hold the \<open>K\<close> windows at these indices, in the order drawn. The draw is as
  uniform as the shuffle: every list of \<open>K\<close> different window indices is what
  \<open>choice\<close> returns for exactly \<open>(n - K)!\<close> of the \<open>n!\<close> shuffles.
\<close>

theorem eval_subset_size_distinct:
  assumes "0 < L" and "length data mod L = 0" and "K \<le> length data div L"
    and "shuffled_range (permutation (length data div L)) (length data div L)"
  shows "(\<exists>g. prepare_dataset data L K permutation = Inr g
            \<and> evaldata g = map (\<lambda>i. traindata g ! i) (take K (permutation (length data div L)))
            \<and> evallabels g = map (\<lambda>i. labeldata g ! i) (take K (permutation (length data div L)))
            \<and> length (evaldata g) = K \<and> length (evallabels g) = K)
       \<and> choice permutation (length data div L) K = Inr (take K (permutation (length data div L)))
       \<and> length (take K (permutation (length data div L))) = K
       \<and> distinct (take K (permutation (length data div L)))
       \<and> set (take K (permutation (length data div L))) \<subseteq> {..<length data div L}
       \<and> (\<forall>idx. length idx = K \<and> distinct idx \<and> set idx \<subseteq> {..<length data div L} \<longrightarrow>
             card {p. shuffled_range p (length data div L)
                      \<and> choice (\<lambda>m. p) (length data div L) K = Inr idx}
               = fact (length data div L - K))"
proof -
  let ?n = "length data div L"
  let ?idx = "take K (permutation ?n)"
  obtain g where g: "prepare_dataset data L K permutation = Inr g"
    using prepare_dataset_Inr [of L data K permutation] assms by blast
  note D = prepare_dataset_InrD [OF g]
  have len: "length ?idx = K"
    using shuffled_range_take(3) [OF assms(4)] assms(3) by simp
  have ev: "evaldata g = map (\<lambda>i. traindata g ! i) ?idx"
      "evallabels g = map (\<lambda>i. labeldata g ! i) ?idx"
    unfolding D(5,6) by (rule D(7), rule D(8))
  have "length (evaldata g) = K" "length (evallabels g) = K"
    unfolding D(7,8) using len by simp_all
  then have first: "\<exists>g. prepare_dataset data L K permutation = Inr g
            \<and> evaldata g = map (\<lambda>i. traindata g ! i) ?idx
            \<and> evallabels g = map (\<lambda>i. labeldata g ! i) ?idx
            \<and> length (evaldata g) = K \<and> length (evallabels g) = K"
    using g ev by blast
  have ch: "choice permutation ?n K = Inr ?idx"
    by (rule choice_Inr [OF assms(3)])
  have dis: "distinct ?idx" "set ?idx \<subseteq> {..<?n}"
    using shuffled_range_take(1,2) [OF assms(4)] by simp_all
  have uni: "\<forall>idx. length idx = K \<and> distinct idx \<and> set idx \<subseteq> {..<?n} \<longrightarrow>
      card {p. shuffled_range p ?n \<and> choice (\<lambda>m. p) ?n K = Inr idx} = fact (?n - K)"
    using choice_draws [OF assms(3)] by blast
  show ?thesis
    using first ch len dis uni by blast
qed

lemma descending_example: "take 2 (descending 4) = [3, 2]"
  by code_simp

theorem eval_subset_size_distinct_witness:
  "(\<exists>g. prepare_dataset [0, 1, 2, 3, 4, 5, 6, 7 :: int] 2 2 descending = Inr g
      \<and> evaldata g = map (\<lambda>i. traindata g ! i) [3, 2]
      \<and> evallabels g = map (\<lambda>i. labeldata g ! i) [3, 2]
      \<and> length (evaldata g) = 2 \<and> length (evallabels g) = 2)
   \<and> choice descending 4 2 = Inr [3, 2]
   \<and> distinct [3, 2 :: nat] \<and> set [3, 2 :: nat] \<subseteq> {..<4}
   \<and> card {p. shuffled_range p 4 \<and> choice (\<lambda>m. p) 4 2 = Inr [3, 2]} = 2"
proof -
  have n: "length [0, 1, 2, 3, 4, 5, 6, 7 :: int] div 2 = 4"
    by simp
  have p: "shuffled_range (descending (length [0, 1, 2, 3, 4, 5, 6, 7 :: int] div 2))
             (length [0, 1, 2, 3, 4, 5, 6, 7 :: int] div 2)"
    by (rule shuffled_range_descending)
  have k: "(2::nat) \<le> length [0, 1, 2, 3, 4, 5, 6, 7 :: int] div 2"
    by simp
  have f: "fact (4 - 2) = (2::nat)"
    by (simp add: fact_numeral)
  have "0 < (2::nat)" and "length [0, 1, 2, 3, 4, 5, 6, 7 :: int] mod 2 = 0"
    by simp_all
  from eval_subset_size_distinct
         [where permutation = descending and data = "[0, 1, 2, 3, 4, 5, 6, 7 :: int]"
            and L = 2 and K = 2, OF this k p]
  show ?thesis
    unfolding n descending_example f by simp
qed

text \<open>
  Claim C10. The evaluation arrays stay aligned: the evaluation inputs and labels have
  the same number of windows, and at every position \<open>j\<close> both come from the same window
  \<open>w\<close> of the source, the drawn index at \<open>j\<close>. So the labels of an evaluation pair are
  its inputs shifted by one, and its last label is the first input of window \<open>w + 1\<close>, or
  the first sample of the source when \<open>w\<close> is the final window.
\<close>

theorem eval_pairs_aligned:
  assumes "prepare_dataset data L K permutation = Inr g"
  shows "length (evallabels g) = length (evaldata g)
       \<and> (\<forall>j < length (evaldata g).
             take K (permutation (length data div L)) ! j < length data div L
           \<and> evaldata g ! j = traindata g ! (take K (permutation (length data div L)) ! j)
           \<and> evallabels g ! j = labeldata g ! (take K (permutation (length data div L)) ! j)
           \<and> length (evaldata g ! j) = L \<and> length (evallabels g ! j) = L
           \<and> (\<forall>i. i + 1 < L \<longrightarrow> evallabels g ! j ! i = evaldata g ! j ! (i + 1))
           \<and> evallabels g ! j ! (L - 1) =
               (if take K (permutation (length data div L)) ! j + 1 < length data div L
                then traindata g ! (take K (permutation (length data div L)) ! j + 1) ! 0
                else data ! 0))"
proof -
  note D = prepare_dataset_InrD [OF assms]
  let ?n = "length data div L"
  let ?idx = "take K (permutation ?n)"
  let ?tr = "row_major data L" and ?lb = "row_major (roll data (- 1)) L"
  have len: "length (evaldata g) = length ?idx" "length (evallabels g) = length ?idx"
    unfolding D(7,8) by simp_all
  have pos: "?idx ! j < ?n
      \<and> evaldata g ! j = traindata g ! (?idx ! j)
      \<and> evallabels g ! j = labeldata g ! (?idx ! j)
      \<and> length (evaldata g ! j) = L \<and> length (evallabels g ! j) = L
      \<and> (\<forall>i. i + 1 < L \<longrightarrow> evallabels g ! j ! i = evaldata g ! j ! (i + 1))
      \<and> evallabels g ! j ! (L - 1) =
          (if ?idx ! j + 1 < ?n then traindata g ! (?idx ! j + 1) ! 0 else data ! 0)"
    if j: "j < length (evaldata g)" for j
  proof -
    have jj: "j < length ?idx" using j len by simp
    then have w: "?idx ! j < ?n" using D(4) nth_mem by blast
    have w': "?idx ! j < length (roll data (- 1)) div L"
      using w by (simp add: length_roll)
    have ev: "evaldata g ! j = ?tr ! (?idx ! j)" "evallabels g ! j = ?lb ! (?idx ! j)"
      unfolding D(7,8) using jj by simp_all
    have "length (?tr ! (?idx ! j)) = L"
      by (rule length_row_major_row [OF w])
    moreover have "length (?lb ! (?idx ! j)) = L"
      by (rule length_row_major_row [OF w'])
    moreover have "\<forall>i. i + 1 < L \<longrightarrow> ?lb ! (?idx ! j) ! i = ?tr ! (?idx ! j) ! (i + 1)"
      using labels_inside_window [OF w] by simp
    moreover have "?lb ! (?idx ! j) ! (L - 1) =
        (if Suc (?idx ! j) < ?n then ?tr ! Suc (?idx ! j) ! 0 else data ! 0)"
      by (rule labels_window_end [OF w D(1,2)])
    ultimately show ?thesis
      using w unfolding ev D(5,6) by simp
  qed
  have "length (evallabels g) = length (evaldata g)"
    using len by simp
  then show ?thesis
    using pos by blast
qed

theorem eval_pairs_aligned_witness:
  "length [[5, 6, 7, 0 :: int]] = length [[4, 5, 6, 7 :: int]]
   \<and> [1] ! 0 < (2 :: nat)
   \<and> [[4, 5, 6, 7]] ! 0 = [[0, 1, 2, 3], [4, 5, 6, 7 :: int]] ! ([1] ! 0)
   \<and> [[5, 6, 7, 0]] ! 0 = [[1, 2, 3, 4], [5, 6, 7, 0 :: int]] ! ([1] ! 0)
   \<and> [[5, 6, 7, 0]] ! 0 ! 0 = [[4, 5, 6, 7 :: int]] ! 0 ! 1
   \<and> [[5, 6, 7, 0]] ! 0 ! 1 = [[4, 5, 6, 7 :: int]] ! 0 ! 2
   \<and> [[5, 6, 7, 0]] ! 0 ! 2 = [[4, 5, 6, 7 :: int]] ! 0 ! 3
   \<and> [[5, 6, 7, 0]] ! 0 ! 3 = [0, 1, 2, 3, 4, 5, 6, 7 :: int] ! 0"
  using eval_pairs_aligned [OF prepare_example] by simp

section \<open>The evaluation pass\<close>

lemma groups_whole:
  assumes "0 < n" and "length xs = n"
  shows "groups n xs = [xs]"
proof -
  have "xs \<noteq> []" using assms by auto
  then have "groups n xs = take n xs # groups n (drop n xs)"
    using assms(1) by (subst groups.simps) simp
  also have "groups n (drop n xs) = []"
    using assms(2) by (subst groups.simps) simp
  finally show ?thesis using assms(2) by simp
qed

text \<open>
  Claim C9. For a positive evaluation count \<open>K\<close>, the iterator of the evaluation input
  function yields exactly one batch, the \<open>K\<close> evaluation inputs of length \<open>L\<close> with
  their \<open>K\<close> labels, in the order of the evaluation arrays; the next request finds the
  sequence at its end.
\<close>

theorem eval_single_batch:
  assumes "prepare_dataset data L K permutation = Inr g"
    and "shuffled_range (permutation (length data div L)) (length data div L)"
    and "0 < K"
  shows "\<exists>it rest. eval_dataset g K = Inr it
           \<and> get_next it = Some ((evaldata g, evallabels g), rest)
           \<and> get_next rest = None
           \<and> length (evaldata g) = K \<and> length (evallabels g) = K
           \<and> (\<forall>row \<in> set (evaldata g) \<union> set (evallabels g). length row = L)"
proof -
  note D = prepare_dataset_InrD [OF assms(1)]
  let ?n = "length data div L"
  let ?idx = "take K (permutation ?n)"
  have lidx: "length ?idx = K"
    using shuffled_range_take(3) [OF assms(2)] D(3) by simp
  have len: "length (evaldata g) = K" "length (evallabels g) = K"
    unfolding D(7,8) using lidx by simp_all
  have rows: "length row = L" if "row \<in> set (evaldata g) \<union> set (evallabels g)" for row
  proof -
    from that obtain i where i: "i \<in> set ?idx"
      and "row = row_major data L ! i \<or> row = row_major (roll data (- 1)) L ! i"
      unfolding D(7,8) by auto
    moreover have "i < ?n" "i < length (roll data (- 1)) div L"
      using D(4) i by (simp_all add: length_roll)
    ultimately show ?thesis
      using length_row_major_row by metis
  qed
  have "groups K (zip (evaldata g) (evallabels g)) = [zip (evaldata g) (evallabels g)]"
    using assms(3) len by (intro groups_whole) simp_all
  then have "eval_dataset g K = Inr [(evaldata g, evallabels g)]"
    using assms(3) len
    by (simp add: eval_dataset_def from_tensor_slices_def repeat_count_def batch_def)
  then show ?thesis
    using len rows by (simp add: get_next_def)
qed

theorem eval_single_batch_witness:
  "\<exists>it rest. eval_dataset \<lparr>traindata = [[0, 1, 2, 3], [4, 5, 6, 7 :: int]],
                  labeldata = [[1, 2, 3, 4], [5, 6, 7, 0]],
                  evaldata = [[4, 5, 6, 7]], evallabels = [[5, 6, 7, 0]]\<rparr> 1 = Inr it
     \<and> get_next it = Some (([[4, 5, 6, 7]], [[5, 6, 7, 0]]), rest)
     \<and> get_next rest = None"
proof -
  have p: "shuffled_range ((\<lambda>n. [1, 0]) (length [0, 1, 2, 3, 4, 5, 6, 7 :: int] div 4))
             (length [0, 1, 2, 3, 4, 5, 6, 7 :: int] div 4)"
    by (simp add: shuffled_range_def upt_rec)
  have "(0::nat) < 1" by simp
  from eval_single_batch [OF prepare_example p this]
  show ?thesis by simp
qed

section \<open>The generated corpus\<close>

lemma length_concat_const:
  assumes "\<forall>x\<in>set xs. length (f x) = N"
  shows "length (concat (map f xs)) = length xs * N"
  using assms by (induction xs) simp_all

text \<open>
  Claim C8. When the generating function returns \<open>N\<close> samples for each waveform kind in
  use, and there is at least one kind, the corpus is generated and its length is the
  number of kinds times \<open>N\<close>.
\<close>

theorem corpus_length:
  assumes "kinds \<noteq> []" and "produces_length create_time_series kinds N"
  shows "\<exists>data. generate_data create_time_series kinds N = Inr data
           \<and> length data = length kinds * N"
proof -
  have "\<forall>kind\<in>set kinds. length (create_time_series kind N) = N"
    using assms(2) by (simp add: produces_length_def list_all_iff)
  then have "length (concat (map (\<lambda>waveform. create_time_series waveform N) kinds))
               = length kinds * N"
    by (rule length_concat_const)
  then show ?thesis
    using assms(1) by (simp add: generate_data_def concatenate_def)
qed

theorem corpus_length_witness:
  "\<exists>data. generate_data (\<lambda>kind n. replicate n kind) [0, 1, 2, 3 :: nat] 2 = Inr data
     \<and> length data = 8"
proof -
  have "produces_length (\<lambda>kind n. replicate n kind) [0, 1, 2, 3 :: nat] 2"
    by (simp add: produces_length_def)
  from corpus_length [OF _ this]
  show ?thesis by simp
qed

section \<open>The notebook's own configuration\<close>

lemma EVAL_SEQUENCES_value: "EVAL_SEQUENCES = 8192"
  by (simp add: EVAL_SEQUENCES_def DATA_SEQ_LEN_def SEQLEN_def)

lemma notebook_cell_succeeds:
  assumes "length data = W * DATA_SEQ_LEN" and "0 < W"
    and "shuffled_range (permutation (W * 8192)) (W * 8192)"
  shows "\<exists>g. notebook_cell data permutation = Inr g \<and> length (evaldata g) = 8192"
proof -
  have m: "length data mod SEQLEN = 0"
    using assms(1) by (simp add: DATA_SEQ_LEN_def SEQLEN_def)
  have d: "length data div SEQLEN = W * 8192"
    using assms(1) by (simp add: DATA_SEQ_LEN_def SEQLEN_def)
  have k: "EVAL_SEQUENCES \<le> length data div SEQLEN"
    using assms(2) by (simp add: d EVAL_SEQUENCES_value)
  have s: "shuffled_range (permutation (length data div SEQLEN)) (length data div SEQLEN)"
    using assms(3) by (simp add: d)
  have "0 < SEQLEN" by (simp add: SEQLEN_def)
  then obtain g where g: "prepare_dataset data SEQLEN EVAL_SEQUENCES permutation = Inr g"
    using prepare_dataset_Inr [of SEQLEN data EVAL_SEQUENCES permutation] m k s by blast
  have "length (take EVAL_SEQUENCES (permutation (length data div SEQLEN))) = EVAL_SEQUENCES"
    using shuffled_range_take(3) [OF s] k by simp
  then have "length (evaldata g) = 8192"
    unfolding prepare_dataset_InrD(7) [OF g] by (simp add: EVAL_SEQUENCES_value)
  then show ?thesis
    using g by (simp add: notebook_cell_def)
qed

end
